theory Spec2Isabelle
  imports Main "HOL-Library.Sublist"
begin

section \<open>Data model of \<open>src/format/format.ts\<close>\<close>

text \<open>
  Strings are \<open>string\<close>; one \<open>char\<close> stands for one UTF-16 code unit, which is
  what JavaScript's \<open>.length\<close> and \<open>padEnd\<close> count. Numbers that the code only
  counts with (lengths, pads, line and column numbers) are \<open>nat\<close>; \<open>maxMessages\<close>,
  which the caller supplies and the code subtracts from, is \<open>int\<close>.
\<close>

datatype MessageSeverity = Warn | Error

datatype OutputFormat = Codeframe | Stylish

text \<open>The only exception the module can raise by itself: reading a property of
  \<open>undefined\<close>.\<close>

datatype exn = TypeError

text \<open>
  Modelled from the spec: the type declarations \<open>LocationObject\<close>,
  \<open>LineColLocationObject\<close> and \<open>NormalizedReportMessage\<close> are imported from
  \<open>../walk\<close>, which is not among the sources. A location carries its source, an
  optional structural pointer, and, when it is already resolved, its start position.
  A line-column location always carries a start position.
\<close>

record Position =
  line :: nat
  col :: nat

record Source =
  absoluteRef :: string

record LocationObject =
  source :: Source
  pointer :: "string option"
  resolved :: "Position option"

record LineColLocationObject =
  lcSource :: Source
  start :: Position

text \<open>
  Modelled from the spec: \<open>NormalizedReportMessage\<close> is declared in \<open>../walk\<close>;
  its fields are those of the spec's diagnostic message, and those the code reads.
  The message type is polymorphic in its location type, so that
  \<open>NormalizedReportMessage\<close> and \<open>OnlyLineColMessage\<close> (the same object with its
  \<open>location\<close> field replaced) are two instances. \<open>ignored\<close> is an optional
  boolean; \<open>fromLoc\<close> is the optional field \<open>from\<close>.
\<close>

record 'loc ReportMessage =
  severity :: MessageSeverity
  message :: string
  ruleId :: string
  suggest :: "string list"
  ignored :: "bool option"
  location :: "'loc list"
  fromLoc :: "LocationObject option"

type_synonym NormalizedReportMessage = "LocationObject ReportMessage"
type_synonym OnlyLineColMessage = "LineColLocationObject ReportMessage"

record Opts =
  maxMessages :: "int option"
  cwd :: "string option"
  format :: "OutputFormat option"
  color :: "bool option"

text \<open>
  The process state the module reads and writes: the global \<open>colorOptions.enabled\<close>
  of colorette, the working directory, and the chunks written to \<open>process.stderr\<close>,
  oldest first.
\<close>

record Process =
  colorEnabled :: bool
  processCwd :: string
  stderr :: "string list"

text \<open>
  The collaborators the module imports: \<open>path.relative\<close>, the two functions of
  \<open>./codeframes\<close>, and colorette's styling functions. A styling function reads
  \<open>colorOptions.enabled\<close> when it is called, so it takes that flag as its first
  argument. The collaborators are functions: they return normally and have no effect
  on the process state, as the spec requires of them.
\<close>

record Collab =
  relative :: "string \<Rightarrow> string \<Rightarrow> string"
  getLineColLocation :: "LocationObject \<Rightarrow> LineColLocationObject"
  getCodeframe :: "LineColLocationObject \<Rightarrow> bool \<Rightarrow> string"
  gray :: "bool \<Rightarrow> string \<Rightarrow> string"
  blue :: "bool \<Rightarrow> string \<Rightarrow> string"
  bgRed :: "bool \<Rightarrow> string \<Rightarrow> string"
  bgYellow :: "bool \<Rightarrow> string \<Rightarrow> string"
  yellow :: "bool \<Rightarrow> string \<Rightarrow> string"
  red :: "bool \<Rightarrow> string \<Rightarrow> string"

section \<open>JavaScript primitives the module uses\<close>

text \<open>Number to string, for the non-negative integers and the integers.\<close>

definition digitChar :: "nat \<Rightarrow> char" where
  "digitChar d = ''0123456789'' ! d"

function showNat :: "nat \<Rightarrow> string" where
  "showNat n = (if n < 10 then [digitChar n] else showNat (n div 10) @ [digitChar (n mod 10)])"
  by pat_completeness auto
termination
  by (relation "measure (\<lambda>n. n)") auto

declare showNat.simps [simp del]

definition showInt :: "int \<Rightarrow> string" where
  "showInt i = (if i < 0 then CHR ''-'' # showNat (nat (- i)) else showNat (nat i))"

text \<open>The line feed character, written \<open>\n\<close> in the source.\<close>

abbreviation nl :: string where
  "nl \<equiv> [CHR 0x0A]"

text \<open>\<open>String.prototype.padEnd\<close> with the default filler, a space.\<close>

definition padEnd :: "nat \<Rightarrow> string \<Rightarrow> string" where
  "padEnd n s = s @ replicate (n - length s) CHR '' ''"

text \<open>\<open>Array.prototype.join\<close> on an array of strings.\<close>

fun join :: "string \<Rightarrow> string list \<Rightarrow> string" where
  "join sep [] = []"
| "join sep [x] = x"
| "join sep (x # y # ys) = x @ sep @ join sep (y # ys)"

text \<open>
  \<open>Array.prototype.slice(0, n)\<close> for an integer \<open>n\<close>: a negative end counts from
  the end of the array, and the end is clamped to the array.
\<close>

definition slice0 :: "int \<Rightarrow> 'a list \<Rightarrow> 'a list" where
  "slice0 n xs =
     (if n < 0 then take (nat (max (int (length xs) + n) 0)) xs else take (nat n) xs)"

text \<open>
  \<open>Array.prototype.sort\<close> with a comparison function. The language requires the
  sort to be stable (ECMAScript 2019); it is written here as an insertion sort that
  puts an element before the first one it does not compare greater than.
\<close>

fun insertBy :: "('a \<Rightarrow> 'a \<Rightarrow> int) \<Rightarrow> 'a \<Rightarrow> 'a list \<Rightarrow> 'a list" where
  "insertBy cmp x [] = [x]"
| "insertBy cmp x (y # ys) = (if cmp x y \<le> 0 then x # y # ys else y # insertBy cmp x ys)"

definition sortBy :: "('a \<Rightarrow> 'a \<Rightarrow> int) \<Rightarrow> 'a list \<Rightarrow> 'a list" where
  "sortBy cmp xs = foldr (insertBy cmp) xs []"

section \<open>The message filter and truncator\<close>

text \<open>\<open>const MAX_SUGGEST = 5\<close>\<close>

definition MAX_SUGGEST :: int where
  "MAX_SUGGEST = 5"

definition severityToNumber :: "MessageSeverity \<Rightarrow> int" where
  "severityToNumber sev = (if sev = Error then 1 else 2)"

text \<open>The comparison function handed to \<open>sort\<close>.\<close>

definition bySeverity :: "('loc, 'more) ReportMessage_scheme \<Rightarrow> ('loc, 'more) ReportMessage_scheme \<Rightarrow> int" where
  "bySeverity a b = severityToNumber (severity a) - severityToNumber (severity b)"

text \<open>\<open>messages.filter((m) => !m.ignored)\<close>: an absent flag is falsy.\<close>

definition notIgnored :: "('loc, 'more) ReportMessage_scheme \<Rightarrow> bool" where
  "notIgnored m = (ignored m \<noteq> Some True)"

definition totalMessages :: "'a list \<Rightarrow> int" where
  "totalMessages messages = int (length messages)"

definition ignoredMessages :: "('loc, 'more) ReportMessage_scheme list \<Rightarrow> int" where
  "ignoredMessages messages = totalMessages messages - int (length (filter notIgnored messages))"

definition visibleMessages ::
  "int \<Rightarrow> ('loc, 'more) ReportMessage_scheme list \<Rightarrow> ('loc, 'more) ReportMessage_scheme list" where
  "visibleMessages maxM messages = slice0 maxM (sortBy bySeverity (filter notIgnored messages))"

section \<open>Rendering one message\<close>

definition BG_COLORS :: "Collab \<Rightarrow> MessageSeverity \<Rightarrow> bool \<Rightarrow> string \<Rightarrow> string" where
  "BG_COLORS c sev = (case sev of Warn \<Rightarrow> bgYellow c | Error \<Rightarrow> bgRed c)"

definition COLORS :: "Collab \<Rightarrow> MessageSeverity \<Rightarrow> bool \<Rightarrow> string \<Rightarrow> string" where
  "COLORS c sev = (case sev of Warn \<Rightarrow> yellow c | Error \<Rightarrow> red c)"

definition SEVERITY_NAMES :: "MessageSeverity \<Rightarrow> string" where
  "SEVERITY_NAMES sev = (case sev of Warn \<Rightarrow> ''Warning'' | Error \<Rightarrow> ''Error'')"

text \<open>The template \<open>`${loc.start.line}:${loc.start.col}`\<close>.\<close>

definition lineCol :: "LineColLocationObject \<Rightarrow> string" where
  "lineCol loc = showNat (line (start loc)) @ '':'' @ showNat (col (start loc))"

text \<open>\<open>en\<close> is the value of \<open>colorOptions.enabled\<close> at the time of the call.\<close>

definition formatFrom :: "Collab \<Rightarrow> bool \<Rightarrow> string \<Rightarrow> LocationObject option \<Rightarrow> string" where
  "formatFrom c en cwd' location' =
     (case location' of
        None \<Rightarrow> []
      | Some l \<Rightarrow>
          (let relativePath = relative c cwd' (absoluteRef (source l));
               loc = getLineColLocation c l;
               fileWithLoc = relativePath @ '':'' @ lineCol loc
           in ''referenced from '' @ blue c en fileWithLoc @ nl @ nl))"

definition formatDidYouMean :: "('loc, 'more) ReportMessage_scheme \<Rightarrow> string" where
  "formatDidYouMean m =
     (if length (suggest m) = 0 then []
      else if length (suggest m) = 1 then
        ''Did you mean: '' @ suggest m ! 0 @ '' ?'' @ nl @ nl
      else
        ''Did you mean:'' @ nl @ ''  - '' @ join (nl @ ''  - '') (slice0 MAX_SUGGEST (suggest m))
          @ nl @ nl)"

text \<open>
  \<open>fullFormatMessage\<close> reads \<open>message.location[0]\<close>; on an empty location list that
  is \<open>undefined\<close>, and reading its \<open>source\<close> raises. An empty pointer string is
  falsy. \<open>color'\<close> is the resolved \<open>color\<close> option of the enclosing call.
\<close>

definition fullFormatMessage ::
  "Collab \<Rightarrow> bool \<Rightarrow> bool \<Rightarrow> string \<Rightarrow> NormalizedReportMessage \<Rightarrow> nat \<Rightarrow> exn + string" where
  "fullFormatMessage c en color' cwd' m idx =
     (case location m of
        [] \<Rightarrow> Inl TypeError
      | location' # _ \<Rightarrow>
          (let bgColor = BG_COLORS c (severity m);
               relativePath = relative c cwd' (absoluteRef (source location'));
               loc = getLineColLocation c location';
               atPointer = (case pointer location' of
                              None \<Rightarrow> []
                            | Some ptr \<Rightarrow> if ptr = [] then [] else gray c en (''at '' @ ptr));
               fileWithLoc = relativePath @ '':'' @ lineCol loc
           in Inr (''['' @ showNat (idx + 1) @ ''] '' @ bgColor en fileWithLoc @ '' '' @ atPointer
                   @ nl @ nl
                   @ message m @ nl @ nl
                   @ formatDidYouMean m
                   @ getCodeframe c loc color'
                   @ nl @ nl
                   @ formatFrom c en cwd' (fromLoc m)
                   @ SEVERITY_NAMES (severity m) @ '' was generated by the ''
                   @ blue c en (ruleId m) @ '' rule.'' @ nl @ nl)))"

definition shortFormatMessage ::
  "Collab \<Rightarrow> bool \<Rightarrow> OnlyLineColMessage \<Rightarrow> nat \<Rightarrow> nat \<Rightarrow> exn + string" where
  "shortFormatMessage c en m locationPad' ruleIdPad' =
     (case location m of
        [] \<Rightarrow> Inl TypeError
      | loc # _ \<Rightarrow>
          Inr (''  '' @ padEnd (locationPad' + 2) (lineCol loc) @ '' ''
               @ COLORS c (severity m) en (padEnd ruleIdPad' (ruleId m)) @ '' '' @ message m))"

section \<open>The file grouper\<close>

record FileGroup =
  locationPad :: nat
  ruleIdPad :: nat
  fileMessages :: "OnlyLineColMessage list"

text \<open>
  \<open>fileGroups\<close> is a plain object used as a dictionary. Its own properties are kept
  as an association list in the order they were created; assigning to an existing
  key keeps the key's place.
\<close>

type_synonym FileGroups = "(string \<times> FileGroup) list"

fun setKey :: "string \<Rightarrow> 'v \<Rightarrow> (string \<times> 'v) list \<Rightarrow> (string \<times> 'v) list" where
  "setKey k v [] = [(k, v)]"
| "setKey k v ((k', v') # kvs) = (if k = k' then (k, v) # kvs else (k', v') # setKey k v kvs)"

text \<open>
  A plain object inherits the properties of \<open>Object.prototype\<close>. Reading
  \<open>fileGroups[key]\<close> for one of these names yields the inherited (truthy) value, so
  no group is created, and \<open>.fileMessages.push\<close> on it raises.
\<close>

definition objectPrototypeKeys :: "string list" where
  "objectPrototypeKeys =
     [''constructor'', ''__defineGetter__'', ''__defineSetter__'', ''hasOwnProperty'',
      ''__lookupGetter__'', ''__lookupSetter__'', ''isPrototypeOf'', ''propertyIsEnumerable'',
      ''toString'', ''valueOf'', ''__proto__'', ''toLocaleString'']"

text \<open>
  \<open>Math.max(...xs)\<close> on lengths. On an empty list JavaScript gives \<open>-Infinity\<close>;
  the code only ever combines the result with a non-negative pad by \<open>Math.max\<close>,
  for which \<open>0\<close> does the same.
\<close>

fun mathMax :: "nat list \<Rightarrow> nat" where
  "mathMax [] = 0"
| "mathMax (x # xs) = max x (mathMax xs)"

text \<open>\<open>{ ...message, location: message.location.map(getLineColLocation) }\<close>\<close>

definition mappedMessage :: "Collab \<Rightarrow> NormalizedReportMessage \<Rightarrow> OnlyLineColMessage" where
  "mappedMessage c m =
     \<lparr>severity = severity m, message = message m, ruleId = ruleId m, suggest = suggest m,
      ignored = ignored m, location = map (getLineColLocation c) (location m),
      fromLoc = fromLoc m\<rparr>"

text \<open>One iteration of the loop of \<open>groupByFiles\<close>.\<close>

definition groupStep :: "Collab \<Rightarrow> FileGroups \<Rightarrow> NormalizedReportMessage \<Rightarrow> exn + FileGroups" where
  "groupStep c fileGroups m =
     (case location m of
        [] \<Rightarrow> Inl TypeError
      | l0 # _ \<Rightarrow>
          (let ref = absoluteRef (source l0) in
           if ref \<in> set objectPrototypeKeys then Inl TypeError
           else
             (let g0 = (case map_of fileGroups ref of
                          Some g \<Rightarrow> g
                        | None \<Rightarrow> \<lparr>locationPad = 0, ruleIdPad = 0, fileMessages = []\<rparr>);
                  mapped = mappedMessage c m;
                  g1 = g0\<lparr>fileMessages := fileMessages g0 @ [mapped]\<rparr>;
                  g2 = g1\<lparr>ruleIdPad := max (length (ruleId m)) (ruleIdPad g1)\<rparr>;
                  g3 = g2\<lparr>locationPad :=
                          max (mathMax (map (\<lambda>loc. length (lineCol loc)) (location mapped)))
                              (locationPad g2)\<rparr>
              in Inr (setKey ref g3 fileGroups))))"

fun groupLoop :: "Collab \<Rightarrow> FileGroups \<Rightarrow> NormalizedReportMessage list \<Rightarrow> exn + FileGroups" where
  "groupLoop c fileGroups [] = Inr fileGroups"
| "groupLoop c fileGroups (m # ms) =
     (case groupStep c fileGroups m of
        Inl e \<Rightarrow> Inl e
      | Inr fileGroups' \<Rightarrow> groupLoop c fileGroups' ms)"

definition groupByFiles :: "Collab \<Rightarrow> NormalizedReportMessage list \<Rightarrow> exn + FileGroups" where
  "groupByFiles c messages = groupLoop c [] messages"

text \<open>
  \<open>Object.entries\<close> lists an object's own properties with the array-index keys
  first, in ascending numeric order, and then the other string keys in the order of
  their creation. A key is an array index when it is the canonical decimal form of an
  integer below \<open>2^32 - 1\<close>.
\<close>

definition readNat :: "string \<Rightarrow> nat" where
  "readNat s = foldl (\<lambda>a ch. 10 * a + (of_char ch - 48)) 0 s"

definition isArrayIndex :: "string \<Rightarrow> bool" where
  "isArrayIndex s =
     (s \<noteq> [] \<and> list_all (\<lambda>ch. ch \<in> set ''0123456789'') s
      \<and> showNat (readNat s) = s \<and> readNat s < 4294967295)"

definition objectEntries :: "(string \<times> 'v) list \<Rightarrow> (string \<times> 'v) list" where
  "objectEntries kvs =
     sort_key (\<lambda>kv. readNat (fst kv)) (filter (\<lambda>kv. isArrayIndex (fst kv)) kvs)
     @ filter (\<lambda>kv. \<not> isArrayIndex (fst kv)) kvs"

section \<open>\<open>formatMessages\<close>\<close>

definition stderrWrite :: "string \<Rightarrow> Process \<Rightarrow> Process" where
  "stderrWrite s p = p\<lparr>stderr := stderr p @ [s]\<rparr>"

text \<open>
  The loops that write. A raised exception ends the call; what was written before
  it stays written.
\<close>

fun writeCodeframes ::
  "Collab \<Rightarrow> bool \<Rightarrow> string \<Rightarrow> nat \<Rightarrow> NormalizedReportMessage list \<Rightarrow> Process
     \<Rightarrow> exn option \<times> Process" where
  "writeCodeframes c color' cwd' i [] p = (None, p)"
| "writeCodeframes c color' cwd' i (m # ms) p =
     (case fullFormatMessage c (colorEnabled p) color' cwd' m i of
        Inl e \<Rightarrow> (Some e, p)
      | Inr s \<Rightarrow> writeCodeframes c color' cwd' (i + 1) ms (stderrWrite (s @ nl) p))"

fun writeFileMessages ::
  "Collab \<Rightarrow> nat \<Rightarrow> nat \<Rightarrow> OnlyLineColMessage list \<Rightarrow> Process \<Rightarrow> exn option \<times> Process" where
  "writeFileMessages c positionPad ruleIdPad' [] p = (None, p)"
| "writeFileMessages c positionPad ruleIdPad' (m # ms) p =
     (case shortFormatMessage c (colorEnabled p) m positionPad ruleIdPad' of
        Inl e \<Rightarrow> (Some e, p)
      | Inr s \<Rightarrow> writeFileMessages c positionPad ruleIdPad' ms (stderrWrite (s @ nl) p))"

fun writeGroups ::
  "Collab \<Rightarrow> string \<Rightarrow> (string \<times> FileGroup) list \<Rightarrow> Process \<Rightarrow> exn option \<times> Process" where
  "writeGroups c cwd' [] p = (None, p)"
| "writeGroups c cwd' ((file, g) # gs) p =
     (let p1 = stderrWrite (blue c (colorEnabled p) (relative c cwd' file) @ '':'' @ nl) p
      in case writeFileMessages c (locationPad g) (ruleIdPad g) (fileMessages g) p1 of
           (Some e, p2) \<Rightarrow> (Some e, p2)
         | (None, p2) \<Rightarrow> writeGroups c cwd' gs (stderrWrite nl p2))"

text \<open>The notice's hint is the source's string between two backquotes (character
  \<open>0x60\<close>).\<close>

definition truncationNotice :: "Collab \<Rightarrow> bool \<Rightarrow> int \<Rightarrow> string" where
  "truncationNotice c en hidden =
     ''< ... '' @ showInt hidden @ '' more messages hidden > ''
     @ gray c en (''increase with '' @ [CHR 0x60] @ ''--max-messages N'' @ [CHR 0x60]) @ nl"

text \<open>The rendering part of \<open>formatMessages\<close>: the branch on \<open>format\<close> with its loops.\<close>

definition renderMessages ::
  "Collab \<Rightarrow> bool \<Rightarrow> string \<Rightarrow> OutputFormat \<Rightarrow> NormalizedReportMessage list \<Rightarrow> Process
     \<Rightarrow> exn option \<times> Process" where
  "renderMessages c color' cwd' format' visible p =
     (if format' = Codeframe then writeCodeframes c color' cwd' 0 visible p
      else (case groupByFiles c visible of
              Inl e \<Rightarrow> (Some e, p)
            | Inr groupedByFile \<Rightarrow> writeGroups c cwd' (objectEntries groupedByFile) p))"

text \<open>The options after destructuring with their defaults.\<close>

definition maxMessagesOf :: "Opts \<Rightarrow> int" where
  "maxMessagesOf opts = (case maxMessages opts of None \<Rightarrow> 100 | Some n \<Rightarrow> n)"

definition cwdOf :: "Opts \<Rightarrow> Process \<Rightarrow> string" where
  "cwdOf opts p = (case cwd opts of None \<Rightarrow> processCwd p | Some d \<Rightarrow> d)"

definition formatOf :: "Opts \<Rightarrow> OutputFormat" where
  "formatOf opts = (case format opts of None \<Rightarrow> Codeframe | Some f \<Rightarrow> f)"

definition colorOf :: "Opts \<Rightarrow> Process \<Rightarrow> bool" where
  "colorOf opts p = (case color opts of None \<Rightarrow> colorEnabled p | Some b \<Rightarrow> b)"

definition formatMessages ::
  "Collab \<Rightarrow> NormalizedReportMessage list \<Rightarrow> Opts \<Rightarrow> Process \<Rightarrow> exn option \<times> Process" where
  "formatMessages c messages opts p =
     (let maxMessages' = maxMessagesOf opts;
          cwd' = cwdOf opts p;
          format' = formatOf opts;
          color' = colorOf opts p;
          p1 = p\<lparr>colorEnabled := color'\<rparr>;
          total = totalMessages messages;
          ignored' = ignoredMessages messages;
          visible = visibleMessages maxMessages' messages
      in if total = 0 then (None, p1)
         else
           (case renderMessages c color' cwd' format' visible p1 of
              (Some e, p2) \<Rightarrow> (Some e, p2)
            | (None, p2) \<Rightarrow>
                if total - ignored' > maxMessages'
                then (None, stderrWrite (truncationNotice c (colorEnabled p2) (total - maxMessages')) p2)
                else (None, p2)))"

section \<open>A plain instance of the collaborators\<close>

text \<open>
  Modelled from the spec: \<open>./codeframes\<close>, \<open>path\<close> and colorette are not among the
  sources. This instance, used to run the module on concrete inputs, has
  \<open>path.relative\<close> for a file below the working directory, a normalizer that returns
  the resolved position of a location (line 1, column 1 when it has none), an
  extractor with no excerpt to show, and colorette's escape sequences.
\<close>

definition plainRelative :: "string \<Rightarrow> string \<Rightarrow> string" where
  "plainRelative from' to' =
     (if take (length from' + 1) to' = from' @ ''/'' then drop (length from' + 1) to' else to')"

definition plainLineCol :: "LocationObject \<Rightarrow> LineColLocationObject" where
  "plainLineCol l =
     \<lparr>lcSource = source l,
      start = (case resolved l of Some pos \<Rightarrow> pos | None \<Rightarrow> \<lparr>line = 1, col = 1\<rparr>)\<rparr>"

definition ansi :: "string \<Rightarrow> string \<Rightarrow> bool \<Rightarrow> string \<Rightarrow> string" where
  "ansi open' close' en s =
     (if en then [CHR 0x1B] @ ''['' @ open' @ ''m'' @ s @ [CHR 0x1B] @ ''['' @ close' @ ''m''
      else s)"

definition plainCollab :: Collab where
  "plainCollab =
     \<lparr>relative = plainRelative,
      getLineColLocation = plainLineCol,
      getCodeframe = (\<lambda>loc color'. []),
      gray = ansi ''90'' ''39'',
      blue = ansi ''34'' ''39'',
      bgRed = ansi ''41'' ''49'',
      bgYellow = ansi ''43'' ''49'',
      yellow = ansi ''33'' ''39'',
      red = ansi ''31'' ''39''\<rparr>"

definition at :: "string \<Rightarrow> nat \<Rightarrow> nat \<Rightarrow> LocationObject" where
  "at file l k =
     \<lparr>source = \<lparr>absoluteRef = file\<rparr>, pointer = None, resolved = Some \<lparr>line = l, col = k\<rparr>\<rparr>"

definition report ::
  "MessageSeverity \<Rightarrow> string \<Rightarrow> string \<Rightarrow> LocationObject list \<Rightarrow> NormalizedReportMessage" where
  "report sev rule txt locs =
     \<lparr>severity = sev, message = txt, ruleId = rule, suggest = [], ignored = None,
      location = locs, fromLoc = None\<rparr>"

definition defaults :: Opts where
  "defaults = \<lparr>maxMessages = None, cwd = None, format = None, color = None\<rparr>"

definition quiet :: Process where
  "quiet = \<lparr>colorEnabled = False, processCwd = ''/work'', stderr = []\<rparr>"

definition sampleMessages :: "NormalizedReportMessage list" where
  "sampleMessages =
     [report Warn ''no-foo'' ''bad foo'' [at ''/work/a.yaml'' 2 3],
      report Error ''no-bar'' ''bad bar'' [at ''/work/b.yaml'' 12 1],
      (report Warn ''no-qux'' ''bad qux'' [at ''/work/a.yaml'' 7 7])\<lparr>ignored := Some True\<rparr>,
      report Error ''no-baz'' ''bad baz'' [at ''/work/a.yaml'' 100 20, at ''/work/c.yaml'' 1 1]]"

definition withSuggest :: "string list \<Rightarrow> NormalizedReportMessage" where
  "withSuggest ss = (report Error ''no-bar'' ''bad bar'' [at ''/work/b.yaml'' 12 1])\<lparr>suggest := ss\<rparr>"

definition twoLocations :: NormalizedReportMessage where
  "twoLocations =
     report Error ''no-baz'' ''bad baz'' [at ''/work/a.yaml'' 100 20, at ''/work/c.yaml'' 1 1]"

definition twoShown :: Opts where
  "twoShown = defaults\<lparr>maxMessages := Some 2, format := Some Stylish\<rparr>"

section \<open>What the grouper is to compute\<close>

text \<open>
  The reference against which \<open>groupByFiles\<close> is checked, written from the
  description of the grouper rather than from its loop. The primary file of a message
  is the \<open>absoluteRef\<close> of its first location. \<open>firstSeen\<close> lists the distinct
  elements of a list in the order of their first occurrence. A message is well formed
  when it has a first location whose file is not a name that every object inherits.
  The group of a file holds the messages of that file in input order, each with its
  locations normalized, and as pads the largest rule id length and the largest
  \<open>line:col\<close> length over all their locations.
\<close>

definition primaryRef :: "NormalizedReportMessage \<Rightarrow> string option" where
  "primaryRef m = (case location m of [] \<Rightarrow> None | l0 # _ \<Rightarrow> Some (absoluteRef (source l0)))"

definition primaryRefs :: "NormalizedReportMessage list \<Rightarrow> string list" where
  "primaryRefs ms = List.map_filter primaryRef ms"

definition firstSeen :: "'a list \<Rightarrow> 'a list" where
  "firstSeen xs = rev (remdups (rev xs))"

definition wellFormed :: "NormalizedReportMessage \<Rightarrow> bool" where
  "wellFormed m =
     (case primaryRef m of None \<Rightarrow> False | Some ref \<Rightarrow> ref \<notin> set objectPrototypeKeys)"

definition messagesOf :: "Collab \<Rightarrow> string \<Rightarrow> NormalizedReportMessage list \<Rightarrow> OnlyLineColMessage list" where
  "messagesOf c file ms = map (mappedMessage c) (filter (\<lambda>m. primaryRef m = Some file) ms)"

definition fileGroupOf :: "Collab \<Rightarrow> string \<Rightarrow> NormalizedReportMessage list \<Rightarrow> FileGroup" where
  "fileGroupOf c file ms =
     \<lparr>locationPad =
        mathMax (map (\<lambda>m. mathMax (map (\<lambda>loc. length (lineCol loc)) (location m)))
                   (messagesOf c file ms)),
      ruleIdPad = mathMax (map (\<lambda>m. length (ruleId m)) (messagesOf c file ms)),
      fileMessages = messagesOf c file ms\<rparr>"

definition groupedAs :: "Collab \<Rightarrow> NormalizedReportMessage list \<Rightarrow> FileGroups" where
  "groupedAs c ms = map (\<lambda>file. (file, fileGroupOf c file ms)) (firstSeen (primaryRefs ms))"

definition padMessages :: "NormalizedReportMessage list" where
  "padMessages =
     [report Warn ''a'' ''x'' [at ''/work/a.yaml'' 1 1, at ''/work/z.yaml'' 1000 2000],
      report Error ''longer-rule'' ''y'' [at ''/work/a.yaml'' 22 3]]"

section \<open>The caller's arrays and objects\<close>

text \<open>
  JavaScript arrays and objects are shared by reference. To say what a call leaves
  unchanged, the message objects and the arrays of references to them live in a
  store, each at an address (its index). \<open>filter\<close> and \<open>slice\<close> allocate a new
  array; \<open>sort\<close> sorts the array it is called on in place and returns that same
  array. The module never assigns to a property of a message object; the spread in
  \<open>groupByFiles\<close> builds a new object, so the store has no operation that writes an
  object. \<open>formatMessagesStore\<close> is \<open>formatMessages\<close> with its array operations
  carried out on the store. In JavaScript a reference always leads to an object; here
  that is the case when every reference in an array is below the number of objects and
  the caller's array is below the number of arrays.
\<close>

record Store =
  objects :: "NormalizedReportMessage list"
  arrays :: "nat list list"

text \<open>Allocation of a new array: its address is the next free index.\<close>

definition arrayNew :: "nat list \<Rightarrow> Store \<Rightarrow> nat \<times> Store" where
  "arrayNew refs s = (length (arrays s), s\<lparr>arrays := arrays s @ [refs]\<rparr>)"

text \<open>The messages an array refers to.\<close>

definition deref :: "Store \<Rightarrow> nat \<Rightarrow> NormalizedReportMessage list" where
  "deref s a = map (\<lambda>r. objects s ! r) (arrays s ! a)"

definition arrayFilter :: "(NormalizedReportMessage \<Rightarrow> bool) \<Rightarrow> nat \<Rightarrow> Store \<Rightarrow> nat \<times> Store" where
  "arrayFilter keep a s = arrayNew (filter (\<lambda>r. keep (objects s ! r)) (arrays s ! a)) s"

definition arraySort ::
  "(NormalizedReportMessage \<Rightarrow> NormalizedReportMessage \<Rightarrow> int) \<Rightarrow> nat \<Rightarrow> Store \<Rightarrow> nat \<times> Store" where
  "arraySort cmp a s =
     (a, s\<lparr>arrays := (arrays s)
              [a := sortBy (\<lambda>x y. cmp (objects s ! x) (objects s ! y)) (arrays s ! a)]\<rparr>)"

definition arraySlice0 :: "int \<Rightarrow> nat \<Rightarrow> Store \<Rightarrow> nat \<times> Store" where
  "arraySlice0 n a s = arrayNew (slice0 n (arrays s ! a)) s"

definition formatMessagesStore ::
  "Collab \<Rightarrow> nat \<Rightarrow> Opts \<Rightarrow> Process \<Rightarrow> Store \<Rightarrow> (exn option \<times> Process) \<times> Store" where
  "formatMessagesStore c messages opts p s =
     (let maxMessages' = maxMessagesOf opts;
          cwd' = cwdOf opts p;
          format' = formatOf opts;
          color' = colorOf opts p;
          p1 = p\<lparr>colorEnabled := color'\<rparr>;
          total = int (length (arrays s ! messages));
          (filtered, s1) = arrayFilter notIgnored messages s;
          ignored' = total - int (length (arrays s1 ! filtered));
          (sorted', s2) = arraySort bySeverity filtered s1;
          (visible, s3) = arraySlice0 maxMessages' sorted' s2
      in if total = 0 then ((None, p1), s3)
         else
           (case renderMessages c color' cwd' format' (deref s3 visible) p1 of
              (Some e, p2) \<Rightarrow> ((Some e, p2), s3)
            | (None, p2) \<Rightarrow>
                if total - ignored' > maxMessages'
                then ((None, stderrWrite (truncationNotice c (colorEnabled p2) (total - maxMessages')) p2), s3)
                else ((None, p2), s3)))"

definition sampleStore :: Store where
  "sampleStore = \<lparr>objects = sampleMessages, arrays = [[0, 1, 2, 3]]\<rparr>"

section \<open>The sort by severity\<close>

lemma insertBy_least:
  "\<forall>y \<in> set ys. cmp x y \<le> 0 \<Longrightarrow> insertBy cmp x ys = x # ys"
  by (cases ys) auto

lemma insertBy_skip:
  "\<forall>y \<in> set es. 0 < cmp x y \<Longrightarrow> insertBy cmp x (es @ ws) = es @ insertBy cmp x ws"
  by (induction es) auto

lemma bySeverity_Error_le: "severity x = Error \<Longrightarrow> bySeverity x y \<le> 0"
  by (simp add: bySeverity_def severityToNumber_def)

lemma bySeverity_other_Error: "severity x \<noteq> Error \<Longrightarrow> severity y = Error \<Longrightarrow> 0 < bySeverity x y"
  by (simp add: bySeverity_def severityToNumber_def)

lemma bySeverity_other_other: "severity y \<noteq> Error \<Longrightarrow> bySeverity x y \<le> 0"
  by (simp add: bySeverity_def severityToNumber_def)

lemma sortBy_bySeverity:
  "sortBy bySeverity xs =
     filter (\<lambda>m. severity m = Error) xs @ filter (\<lambda>m. severity m \<noteq> Error) xs"
proof (induction xs)
  case Nil
  show ?case by (simp add: sortBy_def)
next
  case (Cons x xs)
  let ?es = "filter (\<lambda>m. severity m = Error) xs"
  let ?ws = "filter (\<lambda>m. severity m \<noteq> Error) xs"
  have step: "sortBy bySeverity (x # xs) = insertBy bySeverity x (?es @ ?ws)"
    using Cons.IH by (simp add: sortBy_def)
  show ?case
  proof (cases "severity x = Error")
    case True
    then have "insertBy bySeverity x (?es @ ?ws) = x # ?es @ ?ws"
      by (intro insertBy_least) (simp add: bySeverity_Error_le)
    with True step show ?thesis by simp
  next
    case False
    then have "insertBy bySeverity x (?es @ ?ws) = ?es @ insertBy bySeverity x ?ws"
      by (intro insertBy_skip) (simp add: bySeverity_other_Error)
    moreover have "insertBy bySeverity x ?ws = x # ?ws"
      by (intro insertBy_least) (simp add: bySeverity_other_other)
    ultimately show ?thesis using False step by simp
  qed
qed

lemma length_sortBy: "length (sortBy cmp xs) = length xs"
proof -
  have "length (insertBy cmp x ys) = Suc (length ys)" for x ys
    by (induction ys) auto
  then show ?thesis by (induction xs) (auto simp: sortBy_def)
qed

lemma length_slice0: "0 \<le> n \<Longrightarrow> int (length (slice0 n xs)) = min n (int (length xs))"
  by (auto simp: slice0_def)

lemma slice0_take: "\<exists>k. slice0 n xs = take k xs"
  by (auto simp: slice0_def)

lemma ignored_count:
  "ignoredMessages ms = int (length (filter (\<lambda>m. ignored m = Some True) ms))"
proof -
  have "length (filter notIgnored ms) + length (filter (\<lambda>m. ignored m = Some True) ms) = length ms"
    using sum_length_filter_compl [of notIgnored ms] by (simp add: notIgnored_def)
  then show ?thesis by (simp add: ignoredMessages_def totalMessages_def)
qed

lemma filter_take_prefix:
  "filter P (take k xs) = take (length (filter P (take k xs))) (filter P xs)"
proof -
  have "filter P xs = filter P (take k xs) @ filter P (drop k xs)"
    by (metis append_take_drop_id filter_append)
  then show ?thesis by simp
qed

lemma filter_severity_sortBy:
  "filter (\<lambda>m. severity m = s) (sortBy bySeverity xs) = filter (\<lambda>m. severity m = s) xs"
  by (cases s) (auto simp: sortBy_bySeverity intro: filter_cong)

lemma sorted_map_const: "\<forall>x \<in> set xs. f x = (c::int) \<Longrightarrow> sorted (map f xs)"
  by (induction xs) auto

lemma sorted_sortBy_bySeverity:
  "sorted (map (\<lambda>m. severityToNumber (severity m)) (sortBy bySeverity xs))"
proof -
  have "sorted (map (\<lambda>m. severityToNumber (severity m)) (filter (\<lambda>m. severity m = Error) xs))"
    by (rule sorted_map_const [where c = 1]) (simp add: severityToNumber_def)
  moreover have "sorted (map (\<lambda>m. severityToNumber (severity m)) (filter (\<lambda>m. severity m \<noteq> Error) xs))"
    by (rule sorted_map_const [where c = 2]) (simp add: severityToNumber_def)
  ultimately show ?thesis
    by (simp add: sortBy_bySeverity sorted_append severityToNumber_def)
qed

section \<open>Counts of the filter and truncator\<close>

text \<open>
  C1. For a positive \<open>maxMessages\<close>: the ignored count plus the number of messages
  that are visible before truncation is the length of the input; the ignored count is
  the number of messages whose \<open>ignored\<close> flag is true; and the visible list (filtered,
  sorted, truncated) has \<open>min(maxMessages, totalMessages - ignoredMessages)\<close> elements.
\<close>

theorem filter_truncate_counts:
  fixes ms :: "('loc, 'more) ReportMessage_scheme list"
  assumes "0 < maxM"
  shows "ignoredMessages ms + int (length (sortBy bySeverity (filter notIgnored ms)))
           = totalMessages ms
       \<and> ignoredMessages ms = int (length (filter (\<lambda>m. ignored m = Some True) ms))
       \<and> int (length (visibleMessages maxM ms))
           = min maxM (totalMessages ms - ignoredMessages ms)"
proof -
  have "int (length (visibleMessages maxM ms)) = min maxM (int (length (filter notIgnored ms)))"
    using assms by (simp add: visibleMessages_def length_slice0 length_sortBy)
  then show ?thesis
    by (simp add: ignored_count [symmetric] length_sortBy) (simp add: ignoredMessages_def)
qed

theorem filter_truncate_counts_witness:
  "(0::int) < 2
   \<and> ignoredMessages sampleMessages = 1
   \<and> totalMessages sampleMessages = 4
   \<and> int (length (visibleMessages 2 sampleMessages)) = 2"
proof -
  have "ignoredMessages sampleMessages = 1" "totalMessages sampleMessages = 4"
    by (simp_all add: ignoredMessages_def totalMessages_def sampleMessages_def notIgnored_def
        report_def)
  then show ?thesis
    using filter_truncate_counts [of 2 sampleMessages] by simp
qed

section \<open>Order of the visible messages\<close>

text \<open>
  C2. The visible list is the error messages of the post-filter input, in their input
  order, followed by its warn messages, in their input order, then truncated. So
  every message before an error message is an error message (no warn precedes an
  error), and for each severity the visible messages of that severity are an initial
  segment of the post-filter input's messages of that severity: equal severities keep
  their relative order.
\<close>

theorem visible_sorted_stable:
  fixes ms :: "('loc, 'more) ReportMessage_scheme list"
  defines "kept \<equiv> filter notIgnored ms"
  shows "visibleMessages maxM ms
           = slice0 maxM (filter (\<lambda>m. severity m = Error) kept @ filter (\<lambda>m. severity m = Warn) kept)
       \<and> (\<forall>i j. i < j \<and> j < length (visibleMessages maxM ms)
              \<and> severity (visibleMessages maxM ms ! j) = Error
            \<longrightarrow> severity (visibleMessages maxM ms ! i) = Error)
       \<and> (\<forall>s. filter (\<lambda>m. severity m = s) (visibleMessages maxM ms)
              = take (length (filter (\<lambda>m. severity m = s) (visibleMessages maxM ms)))
                  (filter (\<lambda>m. severity m = s) kept))"
proof -
  let ?V = "visibleMessages maxM ms"
  let ?S = "sortBy bySeverity kept"
  obtain k where V: "?V = take k ?S"
    using slice0_take [of maxM ?S] by (auto simp: visibleMessages_def kept_def)
  have neq: "(\<lambda>m::('loc, 'more) ReportMessage_scheme. severity m \<noteq> Error) = (\<lambda>m. severity m = Warn)"
    by (rule ext) (metis MessageSeverity.exhaust MessageSeverity.distinct(1))
  have a: "?V = slice0 maxM (filter (\<lambda>m. severity m = Error) kept @ filter (\<lambda>m. severity m = Warn) kept)"
    by (simp add: visibleMessages_def kept_def sortBy_bySeverity neq)
  have srt: "sorted (map (\<lambda>m. severityToNumber (severity m)) ?V)"
    unfolding V take_map [symmetric] by (rule sorted_wrt_take) (rule sorted_sortBy_bySeverity)
  have b: "severity (?V ! i) = Error" if "i < j" "j < length ?V" "severity (?V ! j) = Error" for i j
  proof -
    have "severityToNumber (severity (?V ! i)) \<le> severityToNumber (severity (?V ! j))"
      using sorted_nth_mono [OF srt, of i j] that by simp
    with that(3) show ?thesis by (simp add: severityToNumber_def split: if_splits)
  qed
  have c: "filter (\<lambda>m. severity m = s) ?V
             = take (length (filter (\<lambda>m. severity m = s) ?V)) (filter (\<lambda>m. severity m = s) kept)" for s
    using filter_take_prefix [of "\<lambda>m. severity m = s" k ?S]
    by (simp add: V filter_severity_sortBy)
  from a b c show ?thesis by blast
qed

theorem visible_sorted_stable_witness:
  "visibleMessages 3 sampleMessages = [sampleMessages ! 1, sampleMessages ! 3, sampleMessages ! 0]
   \<and> (0::nat) < 1 \<and> 1 < length (visibleMessages 3 sampleMessages)
   \<and> severity (visibleMessages 3 sampleMessages ! 1) = Error
   \<and> severity (visibleMessages 3 sampleMessages ! 0) = Error"
proof -
  let ?V = "visibleMessages 3 sampleMessages"
  have V: "?V = [sampleMessages ! 1, sampleMessages ! 3, sampleMessages ! 0]"
    by (simp add: visibleMessages_def slice0_def sortBy_def bySeverity_def severityToNumber_def
        notIgnored_def sampleMessages_def report_def)
  have len: "1 < length ?V"
    unfolding V by simp
  have e1: "severity (?V ! 1) = Error"
    unfolding V by (simp add: sampleMessages_def report_def)
  have "\<forall>i j. i < j \<and> j < length ?V \<and> severity (?V ! j) = Error \<longrightarrow> severity (?V ! i) = Error"
    using visible_sorted_stable [of 3 sampleMessages] by (rule conjunct1 [OF conjunct2])
  with len e1 have "severity (?V ! 0) = Error"
    by (metis zero_less_one)
  with V len e1 show ?thesis
    by simp
qed

section \<open>The global color toggle\<close>

lemma colorEnabled_stderrWrite [simp]: "colorEnabled (stderrWrite s p) = colorEnabled p"
  by (simp add: stderrWrite_def)

lemma stderr_stderrWrite [simp]: "stderr (stderrWrite s p) = stderr p @ [s]"
  by (simp add: stderrWrite_def)

lemma colorEnabled_writeCodeframes:
  "colorEnabled (snd (writeCodeframes c color' cwd' i ms p)) = colorEnabled p"
  by (induction ms arbitrary: i p) (auto split: sum.splits)

lemma colorEnabled_writeFileMessages:
  "colorEnabled (snd (writeFileMessages c lp rp ms p)) = colorEnabled p"
  by (induction ms arbitrary: p) (auto split: sum.splits)

lemma colorEnabled_writeGroups:
  "colorEnabled (snd (writeGroups c cwd' gs p)) = colorEnabled p"
proof (induction gs arbitrary: p)
  case Nil
  show ?case by simp
next
  case (Cons kv gs)
  obtain fl g where kv: "kv = (fl, g)" by (cases kv)
  let ?p1 = "stderrWrite (blue c (colorEnabled p) (relative c cwd' fl) @ '':'' @ nl) p"
  obtain r p2 where w: "writeFileMessages c (locationPad g) (ruleIdPad g) (fileMessages g) ?p1 = (r, p2)"
    by (cases "writeFileMessages c (locationPad g) (ruleIdPad g) (fileMessages g) ?p1")
  have "colorEnabled p2 = colorEnabled p"
    using colorEnabled_writeFileMessages [of c "locationPad g" "ruleIdPad g" "fileMessages g" ?p1] w
    by simp
  then show ?case
    using Cons.IH [of "stderrWrite nl p2"] w by (cases r) (simp_all add: kv Let_def)
qed

lemma colorEnabled_renderMessages:
  "colorEnabled (snd (renderMessages c color' cwd' f ms p)) = colorEnabled p"
  by (simp add: renderMessages_def colorEnabled_writeCodeframes colorEnabled_writeGroups
      split: sum.splits)

text \<open>
  C10. After every call of \<open>formatMessages\<close>, also one on an empty list, one in which
  every message is ignored, and one that ends in an exception, \<open>colorOptions.enabled\<close>
  is the color option the call resolved: the explicit option if it is given, the
  value the toggle had before the call otherwise.
\<close>

theorem color_toggle_assigned:
  "colorEnabled (snd (formatMessages c ms opts p))
     = (case color opts of Some b \<Rightarrow> b | None \<Rightarrow> colorEnabled p)"
proof -
  let ?p1 = "p\<lparr>colorEnabled := colorOf opts p\<rparr>"
  let ?r = "renderMessages c (colorOf opts p) (cwdOf opts p) (formatOf opts)
              (visibleMessages (maxMessagesOf opts) ms) ?p1"
  have "colorEnabled (snd ?r) = colorOf opts p"
    by (simp add: colorEnabled_renderMessages)
  then have "colorEnabled (snd (formatMessages c ms opts p)) = colorOf opts p"
    by (cases ?r; cases "fst ?r") (auto simp: formatMessages_def Let_def)
  then show ?thesis
    by (simp add: colorOf_def split: option.splits)
qed

theorem color_toggle_assigned_witness:
  "colorEnabled (snd (formatMessages plainCollab [] (defaults\<lparr>color := Some True\<rparr>) quiet)) = True
   \<and> colorEnabled quiet = False"
  using color_toggle_assigned [of plainCollab "[]" "defaults\<lparr>color := Some True\<rparr>" quiet]
  by (simp add: defaults_def quiet_def)

section \<open>Nothing visible, nothing written\<close>

lemma renderMessages_Nil: "renderMessages c color' cwd' f [] p = (None, p)"
  by (simp add: renderMessages_def groupByFiles_def objectEntries_def)

lemma visibleMessages_all_ignored:
  "\<forall>m \<in> set ms. ignored m = Some True \<Longrightarrow> visibleMessages n ms = []"
  by (simp add: visibleMessages_def notIgnored_def sortBy_def slice0_def)

lemma ignoredMessages_all_ignored:
  "\<forall>m \<in> set ms. ignored m = Some True \<Longrightarrow> ignoredMessages ms = totalMessages ms"
  by (simp add: ignoredMessages_def notIgnored_def)

text \<open>
  C5. When the message list is empty or every message is ignored, and
  \<open>maxMessages\<close> is not negative, \<open>formatMessages\<close> raises nothing and writes
  nothing: \<open>stderr\<close> is what it was before the call.
\<close>

theorem no_output_when_nothing_visible:
  assumes "\<forall>m \<in> set ms. ignored m = Some True" and "0 \<le> maxMessagesOf opts"
  shows "fst (formatMessages c ms opts p) = None
       \<and> stderr (snd (formatMessages c ms opts p)) = stderr p"
  using assms
  by (simp add: formatMessages_def Let_def visibleMessages_all_ignored
      ignoredMessages_all_ignored renderMessages_Nil)

theorem no_output_when_nothing_visible_witness:
  "stderr (snd (formatMessages plainCollab [] defaults quiet)) = []
   \<and> stderr (snd (formatMessages plainCollab
                     [(report Warn ''no-foo'' ''bad foo'' [at ''/work/a.yaml'' 2 3])
                        \<lparr>ignored := Some True\<rparr>]
                     (defaults\<lparr>format := Some Stylish\<rparr>) quiet)) = []"
proof -
  have m: "0 \<le> maxMessagesOf defaults" "0 \<le> maxMessagesOf (defaults\<lparr>format := Some Stylish\<rparr>)"
    by (simp_all add: maxMessagesOf_def defaults_def)
  have q: "stderr quiet = []"
    by (simp add: quiet_def)
  show ?thesis
    using no_output_when_nothing_visible [of "[]" defaults plainCollab quiet, OF _ m(1)]
      no_output_when_nothing_visible
        [of "[(report Warn ''no-foo'' ''bad foo'' [at ''/work/a.yaml'' 2 3])\<lparr>ignored := Some True\<rparr>]"
          "defaults\<lparr>format := Some Stylish\<rparr>" plainCollab quiet, OF _ m(2)]
    by (simp add: q)
qed

section \<open>The suggestion block\<close>

lemma join_bullets: "xs \<noteq> [] \<Longrightarrow> sep @ join sep xs = concat (map (\<lambda>s. sep @ s) xs)"
  by (induction sep xs rule: join.induct) auto

text \<open>
  C6. \<open>formatDidYouMean\<close> renders nothing for an empty suggestion list, the line
  \<open>Did you mean: s ?\<close> for a list of one suggestion \<open>s\<close>, and for two or more
  suggestions the line \<open>Did you mean:\<close> followed by one bullet line for each of the
  first \<open>min(5, length)\<close> suggestions; the suggestions after the fifth do not appear.
\<close>

theorem did_you_mean_policy:
  "(suggest m = [] \<longrightarrow> formatDidYouMean m = [])
   \<and> (\<forall>s. suggest m = [s] \<longrightarrow> formatDidYouMean m = ''Did you mean: '' @ s @ '' ?'' @ nl @ nl)
   \<and> (2 \<le> length (suggest m) \<longrightarrow>
        formatDidYouMean m
          = ''Did you mean:'' @ concat (map (\<lambda>s. nl @ ''  - '' @ s) (take 5 (suggest m))) @ nl @ nl
        \<and> length (take 5 (suggest m)) = min 5 (length (suggest m)))"
proof -
  have many: "formatDidYouMean m
          = ''Did you mean:'' @ concat (map (\<lambda>s. nl @ ''  - '' @ s) (take 5 (suggest m))) @ nl @ nl"
    if "2 \<le> length (suggest m)"
  proof -
    have "0 < length (suggest m)"
      using that by arith
    then have ne: "take 5 (suggest m) \<noteq> []"
      by simp
    have "formatDidYouMean m
            = ''Did you mean:'' @ ((nl @ ''  - '') @ join (nl @ ''  - '') (take 5 (suggest m))) @ nl @ nl"
      using that \<open>0 < length (suggest m)\<close>
      by (simp add: formatDidYouMean_def slice0_def MAX_SUGGEST_def)
    also have "(nl @ ''  - '') @ join (nl @ ''  - '') (take 5 (suggest m))
                 = concat (map (\<lambda>s. (nl @ ''  - '') @ s) (take 5 (suggest m)))"
      by (rule join_bullets [OF ne])
    finally show ?thesis by simp
  qed
  show ?thesis
    using many by (auto simp: formatDidYouMean_def)
qed

theorem did_you_mean_policy_witness:
  "formatDidYouMean (withSuggest []) = []
   \<and> formatDidYouMean (withSuggest [''get'']) = ''Did you mean: get ?'' @ nl @ nl
   \<and> formatDidYouMean (withSuggest [''a'', ''b'', ''c'', ''d'', ''e'', ''f'', ''g''])
       = ''Did you mean:'' @ nl @ ''  - a'' @ nl @ ''  - b'' @ nl @ ''  - c'' @ nl @ ''  - d''
         @ nl @ ''  - e'' @ nl @ nl"
proof -
  have s0: "suggest (withSuggest []) = []"
    and s1: "suggest (withSuggest [''get'']) = [''get'']"
    and s7: "suggest (withSuggest [''a'', ''b'', ''c'', ''d'', ''e'', ''f'', ''g''])
               = [''a'', ''b'', ''c'', ''d'', ''e'', ''f'', ''g'']"
    by (simp_all add: withSuggest_def)
  show ?thesis
    using did_you_mean_policy [of "withSuggest []"]
      did_you_mean_policy [of "withSuggest [''get'']"]
      did_you_mean_policy [of "withSuggest [''a'', ''b'', ''c'', ''d'', ''e'', ''f'', ''g'']"]
    by (simp add: s0 s1 s7)
qed

section \<open>Locations in codeframe mode\<close>

text \<open>
  C4, as the code has it. In codeframe mode \<open>fullFormatMessage\<close> renders only the
  first entry of the location list: every later entry leaves the output unchanged.
  The \<open>referenced from\<close> note is rendered from the message's separate \<open>from\<close> field:
  it is the text \<open>referenced from file:line:col\<close> when the field is present and
  empty when it is absent.
\<close>

theorem codeframe_renders_primary_and_from:
  "fullFormatMessage c en color' cwd' (m\<lparr>location := l0 # rest\<rparr>) i
     = fullFormatMessage c en color' cwd' (m\<lparr>location := [l0]\<rparr>) i
   \<and> (\<exists>before. fullFormatMessage c en color' cwd' (m\<lparr>location := l0 # rest\<rparr>) i
         = Inr (before @ formatFrom c en cwd' (fromLoc m)
                @ SEVERITY_NAMES (severity m) @ '' was generated by the ''
                @ blue c en (ruleId m) @ '' rule.'' @ nl @ nl))
   \<and> formatFrom c en cwd' None = []
   \<and> (\<forall>l. formatFrom c en cwd' (Some l)
          = ''referenced from ''
            @ blue c en (relative c cwd' (absoluteRef (source l)) @ '':''
                         @ lineCol (getLineColLocation c l))
            @ nl @ nl)"
proof -
  have "\<exists>before. fullFormatMessage c en color' cwd' (m\<lparr>location := l0 # rest\<rparr>) i
         = Inr (before @ formatFrom c en cwd' (fromLoc m)
                @ SEVERITY_NAMES (severity m) @ '' was generated by the ''
                @ blue c en (ruleId m) @ '' rule.'' @ nl @ nl)"
    by (simp add: fullFormatMessage_def Let_def)
  then show ?thesis
    by (simp add: fullFormatMessage_def formatFrom_def Let_def formatDidYouMean_def)
qed

text \<open>
  C4, as the spec states it, fails. The message \<open>twoLocations\<close> has a second
  location, in \<open>/work/c.yaml\<close>, and no \<open>from\<close> field; what codeframe mode renders
  for it contains neither a \<open>referenced from\<close> note nor the second location's file.
\<close>

theorem secondary_location_not_rendered:
  "location twoLocations = [at ''/work/a.yaml'' 100 20, at ''/work/c.yaml'' 1 1]
   \<and> fullFormatMessage plainCollab False False ''/work'' twoLocations 0
       = Inr (''[1] a.yaml:100:20 '' @ nl @ nl @ ''bad baz'' @ nl @ nl @ nl @ nl
              @ ''Error was generated by the no-baz rule.'' @ nl @ nl)
   \<and> \<not> sublist ''referenced from''
         (''[1] a.yaml:100:20 '' @ nl @ nl @ ''bad baz'' @ nl @ nl @ nl @ nl
          @ ''Error was generated by the no-baz rule.'' @ nl @ nl)
   \<and> \<not> sublist ''c.yaml''
         (''[1] a.yaml:100:20 '' @ nl @ nl @ ''bad baz'' @ nl @ nl @ nl @ nl
          @ ''Error was generated by the no-baz rule.'' @ nl @ nl)"
  by code_simp

section \<open>The grouper computes the groups of the files in first-seen order\<close>

lemma firstSeen_snoc:
  "firstSeen (xs @ [x]) = (if x \<in> set xs then firstSeen xs else firstSeen xs @ [x])"
  by (simp add: firstSeen_def)

lemma set_firstSeen [simp]: "set (firstSeen xs) = set xs"
  by (simp add: firstSeen_def)

lemma distinct_firstSeen [simp]: "distinct (firstSeen xs)"
  by (simp add: firstSeen_def)

lemma primaryRefs_snoc:
  "primaryRefs (ms @ [m])
     = (case primaryRef m of None \<Rightarrow> primaryRefs ms | Some ref \<Rightarrow> primaryRefs ms @ [ref])"
  by (simp add: primaryRefs_def List.map_filter_def split: option.splits)

lemma set_primaryRefs: "set (primaryRefs ms) = {ref. \<exists>m \<in> set ms. primaryRef m = Some ref}"
  by (induction ms) (auto simp: primaryRefs_def List.map_filter_simps split: option.splits)

lemma mathMax_append: "mathMax (xs @ ys) = max (mathMax xs) (mathMax ys)"
  by (induction xs) auto

lemma mathMax_Max: "xs \<noteq> [] \<Longrightarrow> mathMax xs = Max (set xs)"
proof (induction xs)
  case Nil
  then show ?case by simp
next
  case (Cons x xs)
  then show ?case by (cases xs) (auto simp: max.commute)
qed

lemma mathMax_concat: "mathMax (map mathMax xss) = mathMax (concat xss)"
  by (induction xss) (auto simp: mathMax_append)

lemma setKey_fresh:
  "k \<notin> set ks \<Longrightarrow> setKey k v (map (\<lambda>k'. (k', f k')) ks) = map (\<lambda>k'. (k', f k')) ks @ [(k, v)]"
  by (induction ks) auto

lemma setKey_present:
  "k \<in> set ks \<Longrightarrow> distinct ks \<Longrightarrow>
     setKey k v (map (\<lambda>k'. (k', f k')) ks) = map (\<lambda>k'. (k', if k' = k then v else f k')) ks"
  by (induction ks) auto

lemma map_of_tabulated:
  "map_of (map (\<lambda>k'. (k', f k')) ks) k = (if k \<in> set ks then Some (f k) else None)"
  by (induction ks) auto

lemma groupLoop_snoc:
  "groupLoop c G (ms @ [m])
     = (case groupLoop c G ms of Inl e \<Rightarrow> Inl e | Inr G' \<Rightarrow> groupStep c G' m)"
  by (induction ms arbitrary: G) (auto split: sum.splits)

lemma messagesOf_snoc:
  "messagesOf c file (ms @ [m])
     = (if primaryRef m = Some file then messagesOf c file ms @ [mappedMessage c m]
        else messagesOf c file ms)"
  by (simp add: messagesOf_def)

lemma messagesOf_unseen: "file \<notin> set (primaryRefs ms) \<Longrightarrow> messagesOf c file ms = []"
  by (auto simp: messagesOf_def set_primaryRefs filter_empty_conv)

lemma fileGroupOf_other:
  "primaryRef m \<noteq> Some file \<Longrightarrow> fileGroupOf c file (ms @ [m]) = fileGroupOf c file ms"
  by (simp add: fileGroupOf_def messagesOf_snoc)

lemma groupStep_ill: "\<not> wellFormed m \<Longrightarrow> groupStep c G m = Inl TypeError"
  by (auto simp: groupStep_def wellFormed_def primaryRef_def Let_def split: list.splits)

lemma groupStep_groupedAs:
  assumes "wellFormed m"
  shows "groupStep c (groupedAs c ms) m = Inr (groupedAs c (ms @ [m]))"
proof -
  from assms obtain l0 rest where loc: "location m = l0 # rest"
    by (auto simp: wellFormed_def primaryRef_def split: list.splits)
  define ref where "ref = absoluteRef (source l0)"
  have pr: "primaryRef m = Some ref"
    by (simp add: primaryRef_def loc ref_def)
  have ok: "ref \<notin> set objectPrototypeKeys"
    using assms by (simp add: wellFormed_def pr)
  let ?ks = "firstSeen (primaryRefs ms)"
  let ?f = "\<lambda>file. fileGroupOf c file ms"
  let ?f' = "\<lambda>file. fileGroupOf c file (ms @ [m])"
  define g0 where "g0 = (case map_of (groupedAs c ms) ref of
                          Some g \<Rightarrow> g
                        | None \<Rightarrow> \<lparr>locationPad = 0, ruleIdPad = 0, fileMessages = []\<rparr>)"
  have g0: "g0 = fileGroupOf c ref ms"
    by (simp add: g0_def groupedAs_def map_of_tabulated fileGroupOf_def messagesOf_unseen)
  define g3 where "g3 = g0\<lparr>fileMessages := fileMessages g0 @ [mappedMessage c m],
                           ruleIdPad := max (length (ruleId m)) (ruleIdPad g0),
                           locationPad :=
                             max (mathMax (map (\<lambda>loc. length (lineCol loc))
                                            (location (mappedMessage c m))))
                                 (locationPad g0)\<rparr>"
  have g3: "g3 = fileGroupOf c ref (ms @ [m])"
    by (simp add: g3_def g0 fileGroupOf_def messagesOf_snoc pr mathMax_append mappedMessage_def
        max.commute)
  have step: "groupStep c (groupedAs c ms) m = Inr (setKey ref g3 (groupedAs c ms))"
    using ok by (simp add: groupStep_def loc ref_def [symmetric] Let_def g3_def g0_def)
  have "setKey ref g3 (groupedAs c ms) = groupedAs c (ms @ [m])"
  proof (cases "ref \<in> set (primaryRefs ms)")
    case True
    then have "setKey ref g3 (groupedAs c ms)
                 = map (\<lambda>k'. (k', if k' = ref then g3 else ?f k')) ?ks"
      by (simp add: groupedAs_def setKey_present)
    also have "\<dots> = map (\<lambda>k'. (k', ?f' k')) ?ks"
      by (rule map_cong) (auto simp: g3 fileGroupOf_other pr)
    finally show ?thesis
      using True by (simp add: groupedAs_def primaryRefs_snoc pr firstSeen_snoc)
  next
    case False
    then have "setKey ref g3 (groupedAs c ms) = map (\<lambda>k'. (k', ?f k')) ?ks @ [(ref, g3)]"
      by (simp add: groupedAs_def setKey_fresh)
    also have "map (\<lambda>k'. (k', ?f k')) ?ks = map (\<lambda>k'. (k', ?f' k')) ?ks"
    proof (rule map_cong)
      fix k' assume "k' \<in> set ?ks"
      with False have "k' \<noteq> ref" by auto
      then show "(k', ?f k') = (k', ?f' k')"
        by (simp add: fileGroupOf_other pr)
    qed simp
    finally show ?thesis
      using False by (simp add: groupedAs_def primaryRefs_snoc pr firstSeen_snoc g3)
  qed
  with step show ?thesis by simp
qed

lemma groupByFiles_groupedAs:
  "groupByFiles c ms
     = (if \<forall>m \<in> set ms. wellFormed m then Inr (groupedAs c ms) else Inl TypeError)"
proof (induction ms rule: rev_induct)
  case Nil
  show ?case
    by (simp add: groupByFiles_def groupedAs_def primaryRefs_def firstSeen_def List.map_filter_def)
next
  case (snoc m ms)
  then show ?case
    by (auto simp: groupByFiles_def groupLoop_snoc groupStep_groupedAs groupStep_ill)
qed


lemma groupByFiles_Inr:
  assumes "groupByFiles c ms = Inr groups"
  shows "(\<forall>m \<in> set ms. wellFormed m) \<and> groups = groupedAs c ms"
  using assms by (simp add: groupByFiles_groupedAs split: if_splits)

lemma wellFormed_location: "wellFormed m \<Longrightarrow> location m \<noteq> []"
  by (auto simp: wellFormed_def primaryRef_def)

lemma messagesOf_locations:
  assumes "\<forall>m \<in> set ms. wellFormed m" and "m' \<in> set (messagesOf c file ms)"
  shows "location m' \<noteq> []"
  using assms by (auto simp: messagesOf_def mappedMessage_def wellFormed_location)

lemma messagesOf_seen: "file \<in> set (primaryRefs ms) \<Longrightarrow> messagesOf c file ms \<noteq> []"
  by (auto simp: messagesOf_def set_primaryRefs filter_empty_conv)

lemma length_padEnd: "length (padEnd n s) = max n (length s)"
  by (simp add: padEnd_def)

text \<open>
  C7. In every group that \<open>groupByFiles\<close> produces, \<open>ruleIdPad\<close> is the largest
  length of a rule id among the group's messages, and \<open>locationPad\<close> is the largest
  length of a rendered \<open>line:col\<close> string among all locations, primary or not, of
  the group's messages. So in the group's block every rule id, padded to
  \<open>ruleIdPad\<close>, has that width, and every position, padded to
  \<open>locationPad + 2\<close> as \<open>shortFormatMessage\<close> does, has that width.
\<close>

theorem group_pads_are_maxima:
  assumes "groupByFiles c ms = Inr groups" and "(file, g) \<in> set groups"
  shows "ruleIdPad g = Max ((\<lambda>m. length (ruleId m)) ` set (fileMessages g))
       \<and> locationPad g
           = Max ((\<lambda>loc. length (lineCol loc)) ` (\<Union>m \<in> set (fileMessages g). set (location m)))
       \<and> (\<forall>m \<in> set (fileMessages g).
             length (padEnd (ruleIdPad g) (ruleId m)) = ruleIdPad g
             \<and> (\<forall>loc \<in> set (location m).
                   length (padEnd (locationPad g + 2) (lineCol loc)) = locationPad g + 2))"
proof -
  from assms(1) have wf: "\<forall>m \<in> set ms. wellFormed m" and groups: "groups = groupedAs c ms"
    using groupByFiles_Inr by blast+
  from assms(2) have g: "g = fileGroupOf c file ms" and seen: "file \<in> set (primaryRefs ms)"
    by (auto simp: groups groupedAs_def)
  let ?fm = "messagesOf c file ms"
  have fm: "fileMessages g = ?fm"
    by (simp add: g fileGroupOf_def)
  have ne: "?fm \<noteq> []"
    using seen by (rule messagesOf_seen)
  have "ruleIdPad g = mathMax (map (\<lambda>m. length (ruleId m)) ?fm)"
    by (simp add: g fileGroupOf_def)
  also have "\<dots> = Max (set (map (\<lambda>m. length (ruleId m)) ?fm))"
    using ne by (intro mathMax_Max) simp
  finally have rule: "ruleIdPad g = Max ((\<lambda>m. length (ruleId m)) ` set ?fm)"
    by simp
  let ?all = "concat (map (\<lambda>m. map (\<lambda>loc. length (lineCol loc)) (location m)) ?fm)"
  obtain m0 where m0: "m0 \<in> set ?fm"
    using ne by (cases ?fm) auto
  then have "location m0 \<noteq> []"
    using wf messagesOf_locations by blast
  with m0 have all_ne: "?all \<noteq> []"
    by auto
  have "locationPad g = mathMax (map mathMax (map (\<lambda>m. map (\<lambda>loc. length (lineCol loc)) (location m)) ?fm))"
    by (simp add: g fileGroupOf_def comp_def)
  also have "\<dots> = mathMax ?all"
    by (rule mathMax_concat)
  also have "\<dots> = Max (set ?all)"
    using all_ne by (rule mathMax_Max)
  also have "set ?all = (\<lambda>loc. length (lineCol loc)) ` (\<Union>m \<in> set ?fm. set (location m))"
    by auto
  finally have loc: "locationPad g
      = Max ((\<lambda>loc. length (lineCol loc)) ` (\<Union>m \<in> set ?fm. set (location m)))" .
  have fits_rule: "length (ruleId m) \<le> ruleIdPad g" if "m \<in> set ?fm" for m
    unfolding rule using that by (intro Max_ge) auto
  have fits_loc: "length (lineCol l) \<le> locationPad g" if "m \<in> set ?fm" "l \<in> set (location m)" for m l
    unfolding loc using that by (intro Max_ge) auto
  have "length (padEnd (ruleIdPad g) (ruleId m)) = ruleIdPad g
      \<and> (\<forall>l \<in> set (location m). length (padEnd (locationPad g + 2) (lineCol l)) = locationPad g + 2)"
    if "m \<in> set ?fm" for m
  proof (intro conjI ballI)
    show "length (padEnd (ruleIdPad g) (ruleId m)) = ruleIdPad g"
      using fits_rule [OF that] by (simp add: length_padEnd)
  next
    fix l assume "l \<in> set (location m)"
    then have "length (lineCol l) \<le> locationPad g"
      using fits_loc that by blast
    then show "length (padEnd (locationPad g + 2) (lineCol l)) = locationPad g + 2"
      by (simp add: length_padEnd)
  qed
  with rule loc show ?thesis
    by (simp add: fm)
qed

theorem group_pads_are_maxima_witness:
  "\<exists>g. groupByFiles plainCollab padMessages = Inr [(''/work/a.yaml'', g)]
       \<and> ruleIdPad g = 11 \<and> locationPad g = 9
       \<and> Max ((\<lambda>m. length (ruleId m)) ` set (fileMessages g)) = 11
       \<and> Max ((\<lambda>loc. length (lineCol loc)) ` (\<Union>m \<in> set (fileMessages g). set (location m))) = 9"
proof -
  let ?g = "\<lparr>locationPad = 9, ruleIdPad = 11,
             fileMessages = map (mappedMessage plainCollab) padMessages\<rparr>"
  have run: "groupByFiles plainCollab padMessages = Inr [(''/work/a.yaml'', ?g)]"
    by code_simp
  have "(''/work/a.yaml'', ?g) \<in> set [(''/work/a.yaml'', ?g)]"
    by simp
  from group_pads_are_maxima [OF run this]
  have "ruleIdPad ?g = Max ((\<lambda>m. length (ruleId m)) ` set (fileMessages ?g))"
    and "locationPad ?g
           = Max ((\<lambda>loc. length (lineCol loc)) ` (\<Union>m \<in> set (fileMessages ?g). set (location m)))"
    by blast+
  with run show ?thesis
    by (intro exI [of _ ?g]) simp
qed

section \<open>Grouping key and order\<close>

lemma objectEntries_plain:
  "\<forall>kv \<in> set kvs. \<not> isArrayIndex (fst kv) \<Longrightarrow> objectEntries kvs = kvs"
proof -
  assume a: "\<forall>kv \<in> set kvs. \<not> isArrayIndex (fst kv)"
  then have "filter (\<lambda>kv. isArrayIndex (fst kv)) kvs = []"
    by (simp add: filter_empty_conv)
  moreover from a have "filter (\<lambda>kv. \<not> isArrayIndex (fst kv)) kvs = kvs"
    by (simp add: filter_id_conv)
  ultimately show ?thesis
    by (simp add: objectEntries_def)
qed

lemma set_objectEntries [simp]: "set (objectEntries kvs) = set kvs"
  by (auto simp: objectEntries_def)

text \<open>A file name that starts with a slash is not an array index.\<close>

lemma absolute_path_not_array_index: "hd s = CHR ''/'' \<Longrightarrow> \<not> isArrayIndex s"
  by (cases s) (auto simp: isArrayIndex_def)

text \<open>What \<open>Object.entries\<close> does with keys that are array indices: they come
  first, in numeric order, whatever the order of their creation.\<close>

lemma array_index_keys_iterate_first:
  "map fst (objectEntries [(''/b'', 0::nat), (''2'', 1), (''1'', 2), (''01'', 3)])
     = [''1'', ''2'', ''/b'', ''01'']"
  by (simp add: objectEntries_def isArrayIndex_def readNat_def showNat.simps digitChar_def)

text \<open>
  C8. When \<open>groupByFiles\<close> returns, every message has a first location, whose file
  alone is its key; the groups' keys are the distinct primary files in the order in
  which they are first seen; the group of a file holds exactly the messages with that
  primary file, in input order; and \<open>Object.entries\<close> iterates the groups in that
  same order, provided no file name is an array index (an absolute path or a URL never
  is: \<open>absolute_path_not_array_index\<close>).
\<close>

theorem grouping_by_primary_file:
  assumes "groupByFiles c ms = Inr groups"
  shows "(\<forall>m \<in> set ms. \<exists>l0 rest. location m = l0 # rest
                                  \<and> primaryRef m = Some (absoluteRef (source l0)))
       \<and> map fst groups = firstSeen (primaryRefs ms)
       \<and> (\<forall>(file, g) \<in> set groups.
             fileMessages g = map (mappedMessage c) (filter (\<lambda>m. primaryRef m = Some file) ms))
       \<and> ((\<forall>file \<in> set (primaryRefs ms). \<not> isArrayIndex file) \<longrightarrow> objectEntries groups = groups)"
proof -
  from assms have wf: "\<forall>m \<in> set ms. wellFormed m" and groups: "groups = groupedAs c ms"
    using groupByFiles_Inr by blast+
  have prim: "\<exists>l0 rest. location m = l0 # rest \<and> primaryRef m = Some (absoluteRef (source l0))"
    if "m \<in> set ms" for m
    using wf that by (cases "location m") (auto simp: primaryRef_def dest: wellFormed_location)
  have keys: "map fst groups = firstSeen (primaryRefs ms)"
    by (simp add: groups groupedAs_def comp_def)
  have members: "\<forall>(file, g) \<in> set groups.
      fileMessages g = map (mappedMessage c) (filter (\<lambda>m. primaryRef m = Some file) ms)"
    by (auto simp: groups groupedAs_def fileGroupOf_def messagesOf_def)
  have order: "objectEntries groups = groups" if "\<forall>file \<in> set (primaryRefs ms). \<not> isArrayIndex file"
  proof (rule objectEntries_plain)
    have "fst ` set groups = set (primaryRefs ms)"
      using keys by (metis set_map set_firstSeen)
    with that show "\<forall>kv \<in> set groups. \<not> isArrayIndex (fst kv)"
      by auto
  qed
  from prim keys members order show ?thesis
    by blast
qed


theorem grouping_by_primary_file_witness:
  "\<exists>groups. groupByFiles plainCollab (visibleMessages 100 sampleMessages) = Inr groups
       \<and> primaryRefs (visibleMessages 100 sampleMessages)
           = [''/work/b.yaml'', ''/work/a.yaml'', ''/work/a.yaml'']
       \<and> map fst groups = [''/work/b.yaml'', ''/work/a.yaml'']
       \<and> map (\<lambda>kv. fileMessages (snd kv)) groups
           = [[mappedMessage plainCollab (sampleMessages ! 1)],
              [mappedMessage plainCollab (sampleMessages ! 3),
               mappedMessage plainCollab (sampleMessages ! 0)]]
       \<and> objectEntries groups = groups"
proof -
  let ?vis = "visibleMessages 100 sampleMessages"
  let ?groups =
    "[(''/work/b.yaml'', \<lparr>locationPad = 4, ruleIdPad = 6,
          fileMessages = [mappedMessage plainCollab (sampleMessages ! 1)]\<rparr>),
      (''/work/a.yaml'', \<lparr>locationPad = 6, ruleIdPad = 6,
          fileMessages = [mappedMessage plainCollab (sampleMessages ! 3),
                          mappedMessage plainCollab (sampleMessages ! 0)]\<rparr>)]"
  have run: "groupByFiles plainCollab ?vis = Inr ?groups"
    by code_simp
  have refs: "primaryRefs ?vis = [''/work/b.yaml'', ''/work/a.yaml'', ''/work/a.yaml'']"
    by code_simp
  have plain: "\<forall>file \<in> set (primaryRefs ?vis). \<not> isArrayIndex file"
    unfolding refs by (simp add: absolute_path_not_array_index)
  from grouping_by_primary_file [OF run] plain have "objectEntries ?groups = ?groups"
    by blast
  with run refs show ?thesis
    by (intro exI [of _ ?groups]) simp
qed

section \<open>The truncation notice\<close>

lemma writeCodeframes_ok:
  "\<forall>m \<in> set ms. location m \<noteq> [] \<Longrightarrow> \<exists>p2. writeCodeframes c color' cwd' i ms p = (None, p2)"
proof (induction ms arbitrary: i p)
  case Nil
  show ?case by simp
next
  case (Cons m ms)
  then obtain s where "fullFormatMessage c (colorEnabled p) color' cwd' m i = Inr s"
    by (cases "location m") (auto simp: fullFormatMessage_def Let_def)
  with Cons show ?case by simp
qed

lemma writeFileMessages_ok:
  "\<forall>m \<in> set ms. location m \<noteq> [] \<Longrightarrow> \<exists>p2. writeFileMessages c lp rp ms p = (None, p2)"
proof (induction ms arbitrary: p)
  case Nil
  show ?case by simp
next
  case (Cons m ms)
  then obtain s where "shortFormatMessage c (colorEnabled p) m lp rp = Inr s"
    by (cases "location m") (auto simp: shortFormatMessage_def)
  with Cons show ?case by simp
qed

lemma writeGroups_ok:
  "\<forall>kv \<in> set gs. \<forall>m \<in> set (fileMessages (snd kv)). location m \<noteq> [] \<Longrightarrow>
     \<exists>p2. writeGroups c cwd' gs p = (None, p2)"
proof (induction gs arbitrary: p)
  case Nil
  show ?case by simp
next
  case (Cons kv gs)
  obtain fl g where kv: "kv = (fl, g)" by (cases kv)
  let ?p1 = "stderrWrite (blue c (colorEnabled p) (relative c cwd' fl) @ '':'' @ nl) p"
  from Cons.prems have "\<forall>m \<in> set (fileMessages g). location m \<noteq> []"
    by (simp add: kv)
  then obtain p2 where "writeFileMessages c (locationPad g) (ruleIdPad g) (fileMessages g) ?p1 = (None, p2)"
    using writeFileMessages_ok by blast
  moreover obtain p3 where "writeGroups c cwd' gs (stderrWrite nl p2) = (None, p3)"
    using Cons.IH [of "stderrWrite nl p2"] Cons.prems by auto
  ultimately show ?case
    by (simp add: kv Let_def)
qed

lemma renderMessages_ok:
  assumes "\<forall>m \<in> set ms. wellFormed m"
  shows "\<exists>p2. renderMessages c color' cwd' f ms p = (None, p2)"
proof (cases "f = Codeframe")
  case True
  then show ?thesis
    using assms writeCodeframes_ok [of ms c color' cwd' 0 p]
    by (auto simp: renderMessages_def dest: wellFormed_location)
next
  case False
  have "\<forall>kv \<in> set (objectEntries (groupedAs c ms)). \<forall>m \<in> set (fileMessages (snd kv)). location m \<noteq> []"
    using assms by (auto simp: groupedAs_def fileGroupOf_def dest: messagesOf_locations)
  then obtain p2 where "writeGroups c cwd' (objectEntries (groupedAs c ms)) p = (None, p2)"
    using writeGroups_ok by blast
  then show ?thesis
    using False assms by (simp add: renderMessages_def groupByFiles_groupedAs)
qed

lemma notice_after_rendering:
  assumes run: "formatMessages c ms opts p = (None, p')" and nonneg: "0 \<le> maxMessagesOf opts"
  shows "\<exists>p2. renderMessages c (colorOf opts p) (cwdOf opts p) (formatOf opts)
                 (visibleMessages (maxMessagesOf opts) ms) (p\<lparr>colorEnabled := colorOf opts p\<rparr>)
               = (None, p2)
            \<and> stderr p'
               = stderr p2
                 @ (if totalMessages ms - ignoredMessages ms > maxMessagesOf opts
                    then [''< ... '' @ showInt (totalMessages ms - maxMessagesOf opts)
                          @ '' more messages hidden > ''
                          @ gray c (colorOf opts p)
                              (''increase with '' @ [CHR 0x60] @ ''--max-messages N'' @ [CHR 0x60])
                          @ nl]
                    else [])"
proof (cases "totalMessages ms = 0")
  case True
  then have ms: "ms = []" by (simp add: totalMessages_def)
  have "visibleMessages (maxMessagesOf opts) ms = []"
    by (simp add: ms visibleMessages_all_ignored)
  moreover have "ignoredMessages ms = 0"
    by (simp add: ms ignoredMessages_def totalMessages_def)
  moreover have "p' = p\<lparr>colorEnabled := colorOf opts p\<rparr>"
    using run True by (simp add: formatMessages_def Let_def)
  ultimately show ?thesis
    using True nonneg by (simp add: renderMessages_Nil)
next
  case False
  let ?p1 = "p\<lparr>colorEnabled := colorOf opts p\<rparr>"
  let ?r = "renderMessages c (colorOf opts p) (cwdOf opts p) (formatOf opts)
              (visibleMessages (maxMessagesOf opts) ms) ?p1"
  obtain e p2 where r: "?r = (e, p2)" by (cases ?r)
  have e: "e = None"
    using run False r by (cases e) (simp_all add: formatMessages_def Let_def)
  have "colorEnabled p2 = colorOf opts p"
    using colorEnabled_renderMessages [of c "colorOf opts p" "cwdOf opts p" "formatOf opts"
        "visibleMessages (maxMessagesOf opts) ms" ?p1] r by simp
  then show ?thesis
    using run False r e
    by (auto simp: formatMessages_def Let_def truncationNotice_def split: if_splits)
qed


text \<open>
  C3. For a call whose visible messages are well formed and whose \<open>maxMessages\<close>
  is not negative: the rendering raises nothing, and \<open>formatMessages\<close> writes, after
  everything the rendering wrote, the one line
  \<open>< ... N more messages hidden > hint\<close> with
  \<open>N = totalMessages - maxMessages\<close> if
  \<open>totalMessages - ignoredMessages > maxMessages\<close>, and nothing more otherwise.
\<close>

theorem truncation_notice:
  assumes wf: "\<forall>m \<in> set (visibleMessages (maxMessagesOf opts) ms). wellFormed m"
    and nonneg: "0 \<le> maxMessagesOf opts"
  shows "\<exists>p2. renderMessages c (colorOf opts p) (cwdOf opts p) (formatOf opts)
                 (visibleMessages (maxMessagesOf opts) ms) (p\<lparr>colorEnabled := colorOf opts p\<rparr>)
               = (None, p2)
            \<and> fst (formatMessages c ms opts p) = None
            \<and> stderr (snd (formatMessages c ms opts p))
               = stderr p2
                 @ (if totalMessages ms - ignoredMessages ms > maxMessagesOf opts
                    then [''< ... '' @ showInt (totalMessages ms - maxMessagesOf opts)
                          @ '' more messages hidden > ''
                          @ gray c (colorOf opts p)
                              (''increase with '' @ [CHR 0x60] @ ''--max-messages N'' @ [CHR 0x60])
                          @ nl]
                    else [])"
proof -
  let ?p1 = "p\<lparr>colorEnabled := colorOf opts p\<rparr>"
  let ?r = "renderMessages c (colorOf opts p) (cwdOf opts p) (formatOf opts)
              (visibleMessages (maxMessagesOf opts) ms) ?p1"
  obtain p2 where r: "?r = (None, p2)"
    using renderMessages_ok [OF wf] by blast
  have "fst (formatMessages c ms opts p) = None"
    using r by (simp add: formatMessages_def Let_def)
  then obtain p' where run: "formatMessages c ms opts p = (None, p')"
    by (cases "formatMessages c ms opts p") simp
  from notice_after_rendering [OF run nonneg] r run show ?thesis
    by simp
qed

text \<open>A run in stylish mode: four messages, one of them ignored, two shown. The
  notice counts from the unfiltered total, \<open>4 - 2\<close>.\<close>

lemma stylish_run_example:
  "formatMessages plainCollab sampleMessages twoShown quiet
     = (None, quiet\<lparr>stderr :=
          [''b.yaml:'' @ nl,
           ''  12:1   no-bar bad bar'' @ nl,
           nl,
           ''a.yaml:'' @ nl,
           ''  100:20   no-baz bad baz'' @ nl,
           nl,
           ''< ... 2 more messages hidden > increase with '' @ [CHR 0x60] @ ''--max-messages N''
             @ [CHR 0x60] @ nl]\<rparr>)"
  by code_simp

theorem truncation_notice_witness:
  "0 \<le> maxMessagesOf twoShown
   \<and> maxMessagesOf twoShown < totalMessages sampleMessages - ignoredMessages sampleMessages
   \<and> (\<exists>p2 :: Process. stderr (snd (formatMessages plainCollab sampleMessages twoShown quiet))
              = stderr p2
                @ [''< ... 2 more messages hidden > increase with '' @ [CHR 0x60]
                   @ ''--max-messages N'' @ [CHR 0x60] @ nl])"
proof -
  define out where "out = stderr (snd (formatMessages plainCollab sampleMessages twoShown quiet))"
  define notice where
    "notice = ''< ... 2 more messages hidden > increase with '' @ [CHR 0x60]
               @ ''--max-messages N'' @ [CHR 0x60] @ nl"
  have wf: "\<forall>m \<in> set (visibleMessages (maxMessagesOf twoShown) sampleMessages). wellFormed m"
    by code_simp
  have nonneg: "0 \<le> maxMessagesOf twoShown"
    by code_simp
  have more: "maxMessagesOf twoShown < totalMessages sampleMessages - ignoredMessages sampleMessages"
    by code_simp
  have rendered: "''< ... '' @ showInt (totalMessages sampleMessages - maxMessagesOf twoShown)
                @ '' more messages hidden > ''
                @ gray plainCollab (colorOf twoShown quiet)
                    (''increase with '' @ [CHR 0x60] @ ''--max-messages N'' @ [CHR 0x60])
                @ nl
              = notice"
    unfolding notice_def by code_simp
  have "\<exists>p2 :: Process. out = stderr p2 @ [notice]"
    using truncation_notice [OF wf nonneg, of plainCollab quiet] more
    unfolding out_def [symmetric] rendered by auto
  with nonneg more show ?thesis
    unfolding out_def notice_def by (intro conjI)
qed

section \<open>What a call leaves unchanged\<close>

lemma map_insertBy:
  "map f (insertBy (\<lambda>x y. cmp (f x) (f y)) x xs) = insertBy cmp (f x) (map f xs)"
  by (induction xs) auto

lemma map_sortBy: "map f (sortBy (\<lambda>x y. cmp (f x) (f y)) xs) = sortBy cmp (map f xs)"
  by (induction xs) (auto simp: sortBy_def map_insertBy)

lemma map_slice0: "map f (slice0 n xs) = slice0 n (map f xs)"
  by (simp add: slice0_def take_map)

lemma store_steps:
  fixes s :: Store and a :: nat and n :: int
  defines "s1 \<equiv> snd (arrayFilter notIgnored a s)"
  defines "s2 \<equiv> snd (arraySort bySeverity (length (arrays s)) s1)"
  defines "s3 \<equiv> snd (arraySlice0 n (length (arrays s)) s2)"
  shows "fst (arrayFilter notIgnored a s) = length (arrays s)"
    and "deref s1 (length (arrays s)) = filter notIgnored (deref s a)"
    and "fst (arraySort bySeverity (length (arrays s)) s1) = length (arrays s)"
    and "fst (arraySlice0 n (length (arrays s)) s2) = Suc (length (arrays s))"
    and "deref s3 (Suc (length (arrays s))) = visibleMessages n (deref s a)"
    and "objects s3 = objects s"
    and "take (length (arrays s)) (arrays s3) = arrays s"
proof -
  show "fst (arrayFilter notIgnored a s) = length (arrays s)"
    by (simp add: arrayFilter_def arrayNew_def)
  show d1: "deref s1 (length (arrays s)) = filter notIgnored (deref s a)"
    by (simp add: s1_def arrayFilter_def arrayNew_def deref_def filter_map comp_def)
  show "fst (arraySort bySeverity (length (arrays s)) s1) = length (arrays s)"
    by (simp add: arraySort_def)
  have len1: "length (arrays s1) = Suc (length (arrays s))"
    by (simp add: s1_def arrayFilter_def arrayNew_def)
  have len2: "length (arrays s2) = Suc (length (arrays s))"
    by (simp add: s2_def arraySort_def len1)
  show "fst (arraySlice0 n (length (arrays s)) s2) = Suc (length (arrays s))"
    by (simp add: arraySlice0_def arrayNew_def len2)
  have o1: "objects s1 = objects s"
    by (simp add: s1_def arrayFilter_def arrayNew_def)
  have d2: "deref s2 (length (arrays s)) = sortBy bySeverity (deref s1 (length (arrays s)))"
    by (simp add: s2_def arraySort_def deref_def len1 map_sortBy)
  show "deref s3 (Suc (length (arrays s))) = visibleMessages n (deref s a)"
    using d1 d2
    by (simp add: s3_def arraySlice0_def arrayNew_def deref_def len2 map_slice0
        visibleMessages_def nth_append)
  show "objects s3 = objects s"
    by (simp add: s3_def s2_def arraySlice0_def arrayNew_def arraySort_def o1)
  show "take (length (arrays s)) (arrays s3) = arrays s"
    by (simp add: s3_def s2_def s1_def arraySlice0_def arrayNew_def arraySort_def arrayFilter_def)
qed

lemma formatMessagesStore_refines:
  "fst (formatMessagesStore c a opts p s) = formatMessages c (deref s a) opts p"
proof -
  have len: "int (length (arrays s ! a)) = totalMessages (deref s a)"
    by (simp add: totalMessages_def deref_def)
  have ign: "int (length (arrays (snd (arrayFilter notIgnored a s)) ! length (arrays s)))
             = totalMessages (deref s a) - ignoredMessages (deref s a)"
    using store_steps(2) [where s = s and a = a, THEN arg_cong, of length]
    by (simp add: ignoredMessages_def totalMessages_def deref_def)
  show ?thesis
    unfolding formatMessagesStore_def formatMessages_def Let_def
    by (simp add: split_beta store_steps len ign split: prod.splits option.splits)
qed

lemma formatMessagesStore_store:
  "snd (formatMessagesStore c a opts p s)
     = snd (arraySlice0 (maxMessagesOf opts) (length (arrays s))
              (snd (arraySort bySeverity (length (arrays s)) (snd (arrayFilter notIgnored a s)))))"
  unfolding formatMessagesStore_def Let_def
  by (simp add: split_beta store_steps split: prod.splits option.splits)

text \<open>
  C9. After every call of \<open>formatMessages\<close> on a caller's array of messages, every
  message object is what it was, and every array that existed before the call, the
  caller's array among them, holds the same references in the same order: the call
  writes only arrays it has allocated itself. The call on the store produces exactly
  what \<open>formatMessages\<close> produces on the caller's messages.
\<close>

theorem caller_messages_unchanged:
  assumes "a < length (arrays s)"
  shows "objects (snd (formatMessagesStore c a opts p s)) = objects s
       \<and> arrays (snd (formatMessagesStore c a opts p s)) ! a = arrays s ! a
       \<and> deref (snd (formatMessagesStore c a opts p s)) a = deref s a
       \<and> take (length (arrays s)) (arrays (snd (formatMessagesStore c a opts p s))) = arrays s
       \<and> fst (formatMessagesStore c a opts p s) = formatMessages c (deref s a) opts p"
proof -
  let ?s' = "snd (formatMessagesStore c a opts p s)"
  have obj: "objects ?s' = objects s"
    by (simp add: formatMessagesStore_store store_steps)
  have old: "take (length (arrays s)) (arrays ?s') = arrays s"
    by (simp add: formatMessagesStore_store store_steps)
  have "arrays ?s' ! a = take (length (arrays s)) (arrays ?s') ! a"
    using assms by simp
  then have arr: "arrays ?s' ! a = arrays s ! a"
    by (simp add: old)
  from obj arr old show ?thesis
    by (simp add: deref_def formatMessagesStore_refines)
qed

text \<open>The store tells the two apart: sorting the caller's own array in place would
  reorder it.\<close>

lemma sort_of_the_callers_array_would_show:
  "arrays (snd (arraySort bySeverity 0 sampleStore)) ! 0 = [1, 3, 0, 2]
   \<and> arrays sampleStore ! 0 = [0, 1, 2, 3]"
  by code_simp

theorem caller_messages_unchanged_witness:
  "(0::nat) < length (arrays sampleStore)
   \<and> deref (snd (formatMessagesStore plainCollab 0 twoShown quiet sampleStore)) 0 = sampleMessages
   \<and> arrays (snd (formatMessagesStore plainCollab 0 twoShown quiet sampleStore))
        = [[0, 1, 2, 3], [1, 3, 0], [1, 3]]"
proof -
  have a: "0 < length (arrays sampleStore)"
    by (simp add: sampleStore_def)
  have d: "deref sampleStore 0 = sampleMessages"
    by (simp add: sampleStore_def deref_def sampleMessages_def)
  have r: "arrays (snd (formatMessagesStore plainCollab 0 twoShown quiet sampleStore))
        = [[0, 1, 2, 3], [1, 3, 0], [1, 3]]"
    by code_simp
  from caller_messages_unchanged [OF a, of plainCollab twoShown quiet] a d r show ?thesis
    by simp
qed

end
